theory Spec2Isabelle
  imports Complex_Main
begin

section \<open>Data model\<close>

text \<open>
  A Python \<open>str\<close> is a sequence of Unicode code points; a code point is a natural number.
  \<open>py\<close> writes a literal. Python's integers are unbounded: \<open>int\<close>.
\<close>

type_synonym pystr = "nat list"

definition py :: "string \<Rightarrow> pystr" where
  "py s = map of_char s"

text \<open>
  A ballot is the pair \<open>(count, ranking)\<close> that \<open>parse_ballots\<close> appends.
  A \<open>Counter\<close> is a dictionary that keeps its keys in insertion order (the order
  \<open>tally.items()\<close> and \<open>tally.values()\<close> iterate in): an association list with
  distinct keys.
\<close>

type_synonym cand = pystr
type_synonym ballot = "int \<times> cand list"
type_synonym counter = "(cand \<times> int) list"

text \<open>\<open>c[k]\<close> on a \<open>Counter\<close> and \<open>c.get(k, 0)\<close>: a missing key reads as 0.\<close>

definition counter_get :: "counter \<Rightarrow> cand \<Rightarrow> int" where
  "counter_get t k = (case map_of t k of None \<Rightarrow> 0 | Some v \<Rightarrow> v)"

text \<open>\<open>d[k] = v\<close>: a present key keeps its position, a new key goes to the end.\<close>

fun dict_set :: "counter \<Rightarrow> cand \<Rightarrow> int \<Rightarrow> counter" where
  "dict_set [] k v = [(k, v)]"
| "dict_set ((k', v') # t) k v =
     (if k' = k then (k', v) # t else (k', v') # dict_set t k v)"

text \<open>\<open>c[k] += n\<close> on a \<open>Counter\<close>.\<close>

definition counter_add :: "counter \<Rightarrow> cand \<Rightarrow> int \<Rightarrow> counter" where
  "counter_add t k n = dict_set t k (counter_get t k + n)"

section \<open>Strings\<close>

text \<open>
  The string methods of Python that the two parsers call. \<open>str.isspace\<close> of one code
  point: the characters that \<open>strip()\<close> removes.
\<close>

definition isspace :: "nat \<Rightarrow> bool" where
  "isspace c \<longleftrightarrow>
     (9 \<le> c \<and> c \<le> 13) \<or> (28 \<le> c \<and> c \<le> 32) \<or> c = 133 \<or> c = 160 \<or> c = 5760 \<or>
     (8192 \<le> c \<and> c \<le> 8202) \<or> c = 8232 \<or> c = 8233 \<or> c = 8239 \<or> c = 8287 \<or> c = 12288"

definition py_strip :: "pystr \<Rightarrow> pystr" where
  "py_strip s = rev (dropWhile isspace (rev (dropWhile isspace s)))"

text \<open>\<open>s.split(sep)\<close> for a separator of one character: never the empty list.\<close>

fun py_split :: "nat \<Rightarrow> pystr \<Rightarrow> pystr list" where
  "py_split sep [] = [[]]"
| "py_split sep (c # s) =
     (if c = sep then [] # py_split sep s
      else (case py_split sep s of [] \<Rightarrow> [[c]] | w # ws \<Rightarrow> (c # w) # ws))"

text \<open>\<open>sep.join(xs)\<close>.\<close>

fun py_join :: "pystr \<Rightarrow> pystr list \<Rightarrow> pystr" where
  "py_join sep [] = []"
| "py_join sep [x] = x"
| "py_join sep (x # y # ys) = x @ sep @ py_join sep (y # ys)"

text \<open>
  \<open>s.splitlines()\<close>: a line ends at a line boundary, a carriage return followed by a
  line feed is one boundary, and a boundary at the end of the string does not start
  another line. \<open>splitlines_from\<close> carries the characters of the current line, last first.
\<close>

definition is_linebreak :: "nat \<Rightarrow> bool" where
  "is_linebreak c \<longleftrightarrow>
     (10 \<le> c \<and> c \<le> 13) \<or> (28 \<le> c \<and> c \<le> 30) \<or> c = 133 \<or> c = 8232 \<or> c = 8233"

fun splitlines_from :: "pystr \<Rightarrow> pystr \<Rightarrow> pystr list" where
  "splitlines_from cur [] = (if cur = [] then [] else [rev cur])"
| "splitlines_from cur [c] = (if is_linebreak c then [rev cur] else [rev (c # cur)])"
| "splitlines_from cur (c # d # s) =
     (if c = 13 \<and> d = 10 then rev cur # splitlines_from [] s
      else if is_linebreak c then rev cur # splitlines_from [] (d # s)
      else splitlines_from (c # cur) (d # s))"

definition py_splitlines :: "pystr \<Rightarrow> pystr list" where
  "py_splitlines s = splitlines_from [] s"

text \<open>The three separators of the input format: \<open>,\<close> and \<open>:\<close> and \<open>>\<close>.\<close>

definition comma :: nat where
  "comma = 44"

definition colon :: nat where
  "colon = 58"

definition greater_sign :: nat where
  "greater_sign = 62"

section \<open>Parsing\<close>

text \<open>
  Every \<open>raise ValueError\<close> of the two parsers, in the order of the source, with the line
  number and the names that its message shows:
  \<^item> \<open>Candidates_not_unique\<close>: Candidate names must be unique.
  \<^item> \<open>No_candidate\<close>: Please enter at least one candidate.
  \<^item> \<open>No_ballot_line\<close>: Please enter at least one ballot line.
  \<^item> \<open>Bad_format\<close>: Line idx must be in the format 'count: ranking'.
  \<^item> \<open>Invalid_count\<close>: Line idx has an invalid count.
  \<^item> \<open>Count_not_positive\<close>: Line idx count must be positive.
  \<^item> \<open>Duplicate_in_ranking\<close>: Line idx ranking has duplicate candidates.
  \<^item> \<open>Unknown_candidates\<close>: Line idx contains unknown candidates, with their names.
  \<^item> \<open>No_valid_ballot\<close>: Please enter at least one valid ballot line.

  \<open>Float_overflow\<close> is the one exception of the engines: the \<open>OverflowError\<close> of the
  division \<open>total / 2\<close> in \<open>irv_winner\<close>.
\<close>

datatype error =
  Candidates_not_unique
| No_candidate
| No_ballot_line
| Bad_format nat
| Invalid_count nat
| Count_not_positive nat
| Duplicate_in_ranking nat
| Unknown_candidates nat "pystr list"
| No_valid_ballot
| Float_overflow

definition parse_candidates :: "pystr \<Rightarrow> error + cand list" where
  "parse_candidates raw =
     (let candidates = map py_strip (filter (\<lambda>c. py_strip c \<noteq> []) (py_split comma raw))
      in if length (remdups candidates) \<noteq> length candidates then Inl Candidates_not_unique
         else if candidates = [] then Inl No_candidate
         else Inr candidates)"

text \<open>
  The ranking of a line: \<open>>\<close> replaced by \<open>,\<close>, split at the commas, each token
  trimmed, tokens that are empty after trimming dropped.
\<close>

definition ranking_of :: "pystr \<Rightarrow> cand list" where
  "ranking_of ranking_text =
     map py_strip (filter (\<lambda>c. py_strip c \<noteq> [])
       (py_split comma (map (\<lambda>c. if c = greater_sign then comma else c) ranking_text)))"

text \<open>The two parts of \<open>line.split(":", 1)\<close>, for a line that has a colon.\<close>

definition count_text_of :: "pystr \<Rightarrow> pystr" where
  "count_text_of line = takeWhile (\<lambda>c. c \<noteq> colon) line"

definition ranking_text_of :: "pystr \<Rightarrow> pystr" where
  "ranking_text_of line = tl (dropWhile (\<lambda>c. c \<noteq> colon) line)"

text \<open>
  The body of the loop over the lines, for the line of number \<open>idx\<close>: an error, or
  \<open>None\<close> for a blank line (\<open>continue\<close>), or the ballot to append. The built-in \<open>int\<close> of
  Python is not part of the program; it is the parameter \<open>py_int\<close>, which returns \<open>None\<close>
  where \<open>int\<close> raises \<open>ValueError\<close>.
\<close>

definition parse_line :: "(pystr \<Rightarrow> int option) \<Rightarrow> cand list \<Rightarrow> nat \<Rightarrow> pystr \<Rightarrow> error + ballot option" where
  "parse_line py_int candidates idx line =
     (if py_strip line = [] then Inr None
      else if colon \<notin> set line then Inl (Bad_format idx)
      else
        (let count_text = count_text_of line;
             ranking_text = ranking_text_of line
         in case py_int (py_strip count_text) of
              None \<Rightarrow> Inl (Invalid_count idx)
            | Some count \<Rightarrow>
                if count \<le> 0 then Inl (Count_not_positive idx)
                else
                  (let ranking = ranking_of ranking_text
                   in if length (remdups ranking) \<noteq> length ranking then Inl (Duplicate_in_ranking idx)
                      else
                        (let unknown = filter (\<lambda>c. c \<notin> set candidates) ranking
                         in if unknown \<noteq> [] then Inl (Unknown_candidates idx unknown)
                            else Inr (Some (count, ranking))))))"

fun parse_lines ::
  "(pystr \<Rightarrow> int option) \<Rightarrow> cand list \<Rightarrow> nat \<Rightarrow> pystr list \<Rightarrow> ballot list \<Rightarrow> error + ballot list" where
  "parse_lines py_int candidates idx [] ballots = Inr ballots"
| "parse_lines py_int candidates idx (line # lines) ballots =
     (case parse_line py_int candidates idx line of
        Inl e \<Rightarrow> Inl e
      | Inr None \<Rightarrow> parse_lines py_int candidates (Suc idx) lines ballots
      | Inr (Some b) \<Rightarrow> parse_lines py_int candidates (Suc idx) lines (ballots @ [b]))"

definition parse_ballots :: "(pystr \<Rightarrow> int option) \<Rightarrow> pystr \<Rightarrow> cand list \<Rightarrow> error + ballot list" where
  "parse_ballots py_int raw candidates =
     (if py_strip raw = [] then Inl No_ballot_line
      else
        (case parse_lines py_int candidates 1 (py_splitlines raw) [] of
           Inl e \<Rightarrow> Inl e
         | Inr ballots \<Rightarrow> if ballots = [] then Inl No_valid_ballot else Inr ballots))"

section \<open>Instant-runoff voting\<close>

text \<open>
  One entry of \<open>rounds\<close>: the tuple \<open>(tally, total, list(remaining))\<close>.
\<close>

type_synonym irv_round = "counter \<times> int \<times> cand list"

text \<open>
  The inner loop of a round: the first choice of the ranking that is still in
  \<open>remaining\<close> gets the ballot's count; a ballot with no such choice adds nothing.
\<close>

definition count_ballot :: "cand list \<Rightarrow> ballot \<Rightarrow> counter \<Rightarrow> counter" where
  "count_ballot remaining b tally =
     (case find (\<lambda>choice. choice \<in> set remaining) (snd b) of
        None \<Rightarrow> tally
      | Some choice \<Rightarrow> counter_add tally choice (fst b))"

definition tally_round :: "ballot list \<Rightarrow> cand list \<Rightarrow> counter" where
  "tally_round ballots remaining = fold (count_ballot remaining) ballots []"

definition counter_total :: "counter \<Rightarrow> int" where
  "counter_total tally = sum_list (map snd tally)"

text \<open>
  \<open>total / 2\<close> is Python's true division of two integers: the binary64 number nearest to
  the quotient, ties to the even significand, and \<open>OverflowError\<close> when that number is
  out of the range of binary64. Halving only changes the exponent, so the quotient is
  half of the integer rounded to 53 significant bits: \<open>shift53\<close> is the number of low bits
  that do not fit, \<open>round53\<close> rounds them away. A rounded quotient of \<open>2 ^ 1024\<close> or more
  has no binary64.
\<close>

function shift53 :: "nat \<Rightarrow> nat" where
  "shift53 n = (if n < 2 ^ 53 then 0 else Suc (shift53 (n div 2)))"
  by pat_completeness auto
termination
  by (relation "measure id") auto

declare shift53.simps [simp del]

definition round53 :: "nat \<Rightarrow> nat" where
  "round53 n =
     (let s = shift53 n; q = n div 2 ^ s; r = n mod 2 ^ s
      in if 2 ^ s < 2 * r \<or> (2 * r = 2 ^ s \<and> odd q) then (q + 1) * 2 ^ s else q * 2 ^ s)"

definition true_div_2 :: "int \<Rightarrow> error + real" where
  "true_div_2 n =
     (let m = round53 (nat \<bar>n\<bar>)
      in if 2 ^ 1025 \<le> m then Inl Float_overflow else Inr (real_of_int (sgn n * int m) / 2))"

text \<open>
  The majority loop over \<open>tally.items()\<close>, in insertion order. Each iteration evaluates
  \<open>votes > total / 2\<close>: the division may raise, and the comparison of the integer with
  the binary64 quotient is exact. \<open>None\<close> is the end of the loop without \<open>return\<close>.
\<close>

fun majority :: "counter \<Rightarrow> int \<Rightarrow> error + cand option" where
  "majority [] tot = Inr None"
| "majority ((candidate, votes) # tally) tot =
     (case true_div_2 tot of
        Inl e \<Rightarrow> Inl e
      | Inr half \<Rightarrow> if real_of_int votes > half then Inr (Some candidate) else majority tally tot)"

definition lowest_votes :: "counter \<Rightarrow> int" where
  "lowest_votes tally = (if tally \<noteq> [] then min_list (map snd tally) else 0)"

definition eliminated :: "counter \<Rightarrow> cand list \<Rightarrow> cand list" where
  "eliminated tally remaining =
     filter (\<lambda>c. counter_get tally c = lowest_votes tally) remaining"

text \<open>
  \<open>for candidate in eliminated: remaining.remove(candidate)\<close>; \<open>list.remove\<close> deletes
  the first occurrence. It raises when there is none, which cannot happen here:
  \<open>eliminated\<close> is a sublist of \<open>remaining\<close> computed before the removals.
\<close>

definition survivors :: "counter \<Rightarrow> cand list \<Rightarrow> cand list" where
  "survivors tally remaining = fold remove1 (eliminated tally remaining) remaining"

definition no_winner :: pystr where
  "no_winner = py ''No winner''"

text \<open>The statement after the loop, reached by loop exit and by \<open>break\<close>.\<close>

definition final_winner :: "cand list \<Rightarrow> pystr" where
  "final_winner remaining = (if remaining \<noteq> [] then hd remaining else no_winner)"

text \<open>
  Why the loop ends: an iteration that goes on has a tally that is not empty, and then
  at least one remaining candidate is removed.
\<close>

lemma length_fold_remove1_le: "length (fold remove1 ys xs) \<le> length xs"
proof (induction ys arbitrary: xs)
  case Nil
  show ?case by simp
next
  case (Cons y ys)
  have "length (fold remove1 ys (remove1 y xs)) \<le> length (remove1 y xs)"
    by (rule Cons.IH)
  also have "\<dots> \<le> length xs"
    by (simp add: length_remove1)
  finally show ?case by simp
qed

lemma length_fold_remove1_less:
  assumes "y \<in> set xs"
  shows "length (fold remove1 (y # ys) xs) < length xs"
proof -
  have "length (fold remove1 ys (remove1 y xs)) \<le> length (remove1 y xs)"
    by (rule length_fold_remove1_le)
  also have "\<dots> < length xs"
    using assms by (simp add: length_remove1) (cases xs; auto)
  finally show ?thesis by simp
qed

lemma dict_set_keys:
  "fst ` set (dict_set t k v) = insert k (fst ` set t)"
proof (induction t)
  case Nil
  show ?case by simp
next
  case (Cons p t)
  then show ?case by (cases p) auto
qed

lemma counter_add_keys:
  "fst ` set (counter_add t k n) = insert k (fst ` set t)"
  by (simp add: counter_add_def dict_set_keys)

lemma count_ballot_keys:
  "fst ` set t \<subseteq> set remaining \<Longrightarrow>
   fst ` set (count_ballot remaining b t) \<subseteq> set remaining"
  by (auto simp: count_ballot_def counter_add_keys find_Some_iff split: option.splits)

lemma fold_count_ballot_keys:
  "fst ` set t \<subseteq> set remaining \<Longrightarrow>
   fst ` set (fold (count_ballot remaining) ballots t) \<subseteq> set remaining"
proof (induction ballots arbitrary: t)
  case Nil
  then show ?case by simp
next
  case (Cons b ballots)
  from Cons.prems have "fst ` set (count_ballot remaining b t) \<subseteq> set remaining"
    by (rule count_ballot_keys)
  then show ?case
    using Cons.IH by simp
qed

lemma tally_round_keys: "fst ` set (tally_round ballots remaining) \<subseteq> set remaining"
  unfolding tally_round_def by (rule fold_count_ballot_keys) simp

lemma min_list_in_set: "xs \<noteq> [] \<Longrightarrow> min_list xs \<in> set (xs :: int list)"
  by (simp add: min_list_Min)

lemma counter_get_hit:
  "distinct (map fst t) \<Longrightarrow> (k, v) \<in> set t \<Longrightarrow> counter_get t k = v"
  by (simp add: counter_get_def)

lemma dict_set_distinct: "distinct (map fst t) \<Longrightarrow> distinct (map fst (dict_set t k v))"
  by (induction t) (auto simp: dict_set_keys)

lemma count_ballot_distinct:
  "distinct (map fst t) \<Longrightarrow> distinct (map fst (count_ballot remaining b t))"
  by (auto simp: count_ballot_def counter_add_def dict_set_distinct split: option.splits)

lemma fold_count_ballot_distinct:
  "distinct (map fst t) \<Longrightarrow> distinct (map fst (fold (count_ballot remaining) ballots t))"
  by (induction ballots arbitrary: t) (auto simp: count_ballot_distinct)

lemma tally_round_distinct: "distinct (map fst (tally_round ballots remaining))"
  unfolding tally_round_def by (rule fold_count_ballot_distinct) simp

text \<open>
  An iteration that goes on removes a candidate: a non-empty tally has a key at the
  lowest count, the key is a remaining candidate, and it is eliminated.
\<close>

lemma eliminated_nonempty:
  assumes "tally \<noteq> []" and "distinct (map fst tally)" and "fst ` set tally \<subseteq> set remaining"
  shows "eliminated tally remaining \<noteq> []"
proof -
  from assms(1) have "min_list (map snd tally) \<in> set (map snd tally)"
    by (intro min_list_in_set) simp
  then obtain k where k: "(k, min_list (map snd tally)) \<in> set tally"
    by auto
  with assms(2) have "counter_get tally k = lowest_votes tally"
    using assms(1) by (simp add: counter_get_hit lowest_votes_def)
  moreover from k assms(3) have "k \<in> set remaining"
    by force
  ultimately have "k \<in> set (eliminated tally remaining)"
    by (simp add: eliminated_def)
  then show ?thesis by auto
qed

lemma survivors_shrink:
  assumes "tally \<noteq> []" and "distinct (map fst tally)" and "fst ` set tally \<subseteq> set remaining"
  shows "length (survivors tally remaining) < length remaining"
proof -
  from assms obtain y ys where e: "eliminated tally remaining = y # ys"
    using eliminated_nonempty by (cases "eliminated tally remaining") auto
  then have "y \<in> set (eliminated tally remaining)" by simp
  then have "y \<in> set remaining" by (simp add: eliminated_def)
  then show ?thesis
    unfolding survivors_def e by (rule length_fold_remove1_less)
qed

lemma counter_total_nonzero: "counter_total tally \<noteq> 0 \<Longrightarrow> tally \<noteq> []"
  by (auto simp: counter_total_def)

text \<open>
  The \<open>while\<close> loop of \<open>irv_winner\<close>, with \<open>remaining\<close> and \<open>rounds\<close> as its state; the
  result is the returned pair, or the exception of the division.
\<close>

function irv_loop ::
  "ballot list \<Rightarrow> cand list \<Rightarrow> irv_round list \<Rightarrow> error + pystr \<times> irv_round list" where
  "irv_loop ballots remaining rounds =
     (if length remaining > 1 then
        (let tally = tally_round ballots remaining;
             tot = counter_total tally;
             rounds' = rounds @ [(tally, tot, remaining)]
         in if tot = 0 then Inr (final_winner remaining, rounds')
            else (case majority tally tot of
                    Inl e \<Rightarrow> Inl e
                  | Inr (Some candidate) \<Rightarrow> Inr (candidate, rounds')
                  | Inr None \<Rightarrow> irv_loop ballots (survivors tally remaining) rounds'))
      else Inr (final_winner remaining, rounds))"
  by pat_completeness auto
termination
proof (relation "measure (\<lambda>(ballots, remaining, rounds). length remaining)")
  show "wf (measure (\<lambda>(ballots, remaining, rounds). length remaining))"
    by simp
next
  fix ballots :: "ballot list" and remaining :: "cand list" and rounds :: "irv_round list"
    and tally tot rounds'
  assume "tally = tally_round ballots remaining" and "tot = counter_total tally"
    and "tot \<noteq> 0"
  then have "length (survivors tally remaining) < length remaining"
    using survivors_shrink [of tally remaining] counter_total_nonzero [of tally]
      tally_round_distinct [of ballots remaining] tally_round_keys [of ballots remaining]
    by simp
  then show "((ballots, survivors tally remaining, rounds'), (ballots, remaining, rounds))
      \<in> measure (\<lambda>(ballots, remaining, rounds). length remaining)"
    by simp
qed

declare irv_loop.simps [simp del]

definition irv_winner :: "cand list \<Rightarrow> ballot list \<Rightarrow> error + pystr \<times> irv_round list" where
  "irv_winner candidates ballots = irv_loop ballots candidates []"

section \<open>Borda count\<close>

text \<open>
  \<open>Counter({c: 0 for c in candidates})\<close>: every candidate starts with the entry 0, in the
  order of the candidate list.
\<close>

definition initial_scores :: "cand list \<Rightarrow> counter" where
  "initial_scores candidates = fold (\<lambda>c scores. dict_set scores c 0) candidates []"

text \<open>
  The inner loop over \<open>enumerate(ranking)\<close>:
  \<open>scores[candidate] += count * (max_points - idx)\<close>.
\<close>

definition score_ballot :: "int \<Rightarrow> ballot \<Rightarrow> counter \<Rightarrow> counter" where
  "score_ballot max_points b scores =
     fold (\<lambda>(idx, candidate) scores. counter_add scores candidate (fst b * (max_points - int idx)))
       (enumerate 0 (snd b)) scores"

definition borda_winner :: "cand list \<Rightarrow> ballot list \<Rightarrow> counter" where
  "borda_winner candidates ballots =
     (let scores = initial_scores candidates;
          max_points = int (length candidates) - 1
      in fold (score_ballot max_points) ballots scores)"

section \<open>Condorcet\<close>

text \<open>
  \<open>pairwise\<close> is a \<open>defaultdict\<close> of \<open>defaultdict(int)\<close>: every pair reads as 0 until it
  is written, so it is a total function here. (Reading a missing pair also stores the
  0 in the Python object; no value changes by that.)
\<close>

type_synonym pairwise = "cand \<Rightarrow> cand \<Rightarrow> int"

definition pairwise_add :: "pairwise \<Rightarrow> cand \<Rightarrow> cand \<Rightarrow> int \<Rightarrow> pairwise" where
  "pairwise_add pw winner loser n =
     pw(winner := (pw winner)(loser := pw winner loser + n))"

text \<open>
  The loops over one ranking: each \<open>winner\<close> at position \<open>i\<close> against every \<open>loser\<close> of
  \<open>ranking[i + 1:]\<close>.
\<close>

fun count_pairs :: "int \<Rightarrow> cand list \<Rightarrow> pairwise \<Rightarrow> pairwise" where
  "count_pairs n [] pw = pw"
| "count_pairs n (winner # rest) pw =
     count_pairs n rest (fold (\<lambda>loser pw. pairwise_add pw winner loser n) rest pw)"

definition pairwise_matrix :: "ballot list \<Rightarrow> pairwise" where
  "pairwise_matrix ballots =
     fold (\<lambda>(count, ranking) pw. count_pairs count ranking pw) ballots (\<lambda>a b. 0)"

definition count_victory :: "pairwise \<Rightarrow> cand \<Rightarrow> cand \<Rightarrow> counter \<Rightarrow> counter" where
  "count_victory pw a b victories =
     (if a = b then victories
      else if pw a b > pw b a then counter_add victories a 1
      else victories)"

definition count_victories :: "pairwise \<Rightarrow> cand list \<Rightarrow> counter" where
  "count_victories pw candidates =
     fold (\<lambda>a victories. fold (count_victory pw a) candidates victories) candidates []"

definition condorcet_winner :: "cand list \<Rightarrow> ballot list \<Rightarrow> cand option \<times> pairwise \<times> counter" where
  "condorcet_winner candidates ballots =
     (let pw = pairwise_matrix ballots;
          victories = count_victories pw candidates;
          winner = find (\<lambda>candidate. counter_get victories candidate = int (length candidates) - 1)
                     candidates
      in (winner, pw, victories))"

section \<open>Valid elections and the elections of the examples\<close>

text \<open>
  What \<open>parse_candidates\<close> and \<open>parse_ballots\<close> let through: at least one candidate,
  no name twice; at least one ballot, each with a positive count and a ranking without
  repetition over the candidates.
\<close>

definition valid_ballot :: "cand list \<Rightarrow> ballot \<Rightarrow> bool" where
  "valid_ballot candidates b \<longleftrightarrow>
     0 < fst b \<and> distinct (snd b) \<and> list_all (\<lambda>c. c \<in> set candidates) (snd b)"

definition valid_input :: "cand list \<Rightarrow> ballot list \<Rightarrow> bool" where
  "valid_input candidates ballots \<longleftrightarrow>
     candidates \<noteq> [] \<and> distinct candidates \<and> ballots \<noteq> [] \<and>
     list_all (valid_ballot candidates) ballots"

text \<open>
  The candidates and ballots that \<open>create_widgets\<close> puts into the two input fields.
\<close>

definition default_candidates :: "cand list" where
  "default_candidates = [py ''Alice'', py ''Bob'', py ''Chen'', py ''Diego'']"

definition default_ballots :: "ballot list" where
  "default_ballots =
     [(10, [py ''Alice'', py ''Bob'', py ''Chen'', py ''Diego'']),
      (8, [py ''Bob'', py ''Diego'', py ''Chen'', py ''Alice'']),
      (6, [py ''Chen'', py ''Alice'', py ''Bob'', py ''Diego'']),
      (4, [py ''Diego'', py ''Chen'', py ''Alice'', py ''Bob''])]"

lemmas irv_eval = irv_winner_def irv_loop.simps tally_round_def count_ballot_def counter_add_def
  counter_get_def counter_total_def true_div_2_def round53_def shift53.simps lowest_votes_def eliminated_def survivors_def
  final_winner_def no_winner_def py_def Let_def

lemma default_election_valid: "valid_input default_candidates default_ballots"
  by (simp add: valid_input_def valid_ballot_def default_candidates_def default_ballots_def py_def)

text \<open>
  For the concrete inputs below, \<open>py_int\<close> is a reader of an optional sign followed by
  ASCII decimal digits. On such strings, and on the empty string, it returns what \<open>int\<close>
  returns; the general statements hold for every \<open>py_int\<close>.
\<close>

fun digits_value :: "pystr \<Rightarrow> int \<Rightarrow> int option" where
  "digits_value [] acc = Some acc"
| "digits_value (c # s) acc =
     (if 48 \<le> c \<and> c \<le> 57 then digits_value s (10 * acc + (int c - 48)) else None)"

definition decimal_int :: "pystr \<Rightarrow> int option" where
  "decimal_int s =
     (case s of
        [] \<Rightarrow> None
      | c # r \<Rightarrow>
          if c = 45 then (if r = [] then None else map_option uminus (digits_value r 0))
          else if c = 43 then (if r = [] then None else digits_value r 0)
          else digits_value s 0)"

lemmas parse_eval = parse_ballots_def py_strip_def isspace_def py_splitlines_def parse_line_def
  colon_def decimal_int_def ranking_of_def comma_def greater_sign_def py_def is_linebreak_def
  count_text_of_def ranking_text_of_def Let_def

section \<open>Facts about the string methods\<close>

lemma py_split_no_sep: "sep \<notin> set x \<Longrightarrow> py_split sep x = [x]"
  by (induction x) auto

lemma py_split_append_sep:
  "sep \<notin> set x \<Longrightarrow> py_split sep (x @ sep # r) = x # py_split sep r"
  by (induction x) auto

lemma py_split_join:
  "ts \<noteq> [] \<Longrightarrow> \<forall>t\<in>set ts. sep \<notin> set t \<Longrightarrow> py_split sep (py_join [sep] ts) = ts"
  by (induction "[sep]" ts rule: py_join.induct)
    (simp_all add: py_split_no_sep py_split_append_sep)

lemma py_split_tokens_no_sep: "t \<in> set (py_split sep s) \<Longrightarrow> sep \<notin> set t"
  by (induction s arbitrary: t) (auto split: if_splits list.splits)

lemma set_py_strip: "set (py_strip s) \<subseteq> set s"
  by (auto simp: py_strip_def dest!: set_dropWhileD)

lemma last_dropWhile_eq: "dropWhile P xs \<noteq> [] \<Longrightarrow> last (dropWhile P xs) = last xs"
  by (metis last_appendR takeWhile_dropWhile_id)

lemma py_strip_ends:
  assumes "py_strip s \<noteq> []"
  shows "\<not> isspace (hd (py_strip s))" and "\<not> isspace (last (py_strip s))"
proof -
  let ?u = "dropWhile isspace s"
  let ?v = "dropWhile isspace (rev ?u)"
  from assms have v: "?v \<noteq> []" by (simp add: py_strip_def)
  then have "rev ?u \<noteq> []" by (metis dropWhile.simps(1))
  then have u: "?u \<noteq> []" by simp
  from v have "\<not> isspace (hd ?v)" by (rule hd_dropWhile)
  then show "\<not> isspace (last (py_strip s))"
    using v by (simp add: py_strip_def last_rev)
  from v have "last ?v = last (rev ?u)" by (rule last_dropWhile_eq)
  also have "\<dots> = hd ?u" using u by (simp add: last_rev)
  finally have "hd (py_strip s) = hd ?u"
    using v by (simp add: py_strip_def hd_rev)
  moreover from u have "\<not> isspace (hd ?u)" by (rule hd_dropWhile)
  ultimately show "\<not> isspace (hd (py_strip s))" by simp
qed

lemma py_strip_fixed:
  assumes "t \<noteq> []" and "\<not> isspace (hd t)" and "\<not> isspace (last t)"
  shows "py_strip t = t"
proof -
  from assms(1,2) have "dropWhile isspace t = t"
    by (simp add: dropWhile_eq_self_iff)
  moreover from assms(1,3) have "dropWhile isspace (rev t) = rev t"
    by (simp add: dropWhile_eq_self_iff hd_rev)
  ultimately show ?thesis by (simp add: py_strip_def)
qed

lemma py_strip_idem: "py_strip (py_strip s) = py_strip s"
proof (cases "py_strip s = []")
  case True
  have "py_strip [] = []" by (simp add: py_strip_def)
  with True show ?thesis by simp
next
  case False
  then show ?thesis by (intro py_strip_fixed py_strip_ends)
qed

lemma length_remdups_distinct: "length (remdups xs) = length xs \<longleftrightarrow> distinct xs"
  by (metis distinct_remdups length_remdups_eq remdups_id_iff_distinct)

section \<open>Facts about the ballot parser\<close>

lemma parse_line_ballot:
  assumes "parse_line py_int candidates idx line = Inr (Some b)"
  shows "valid_ballot candidates b \<and> py_strip line \<noteq> [] \<and>
         py_int (py_strip (count_text_of line)) = Some (fst b) \<and>
         snd b = ranking_of (ranking_text_of line)"
  using assms
  by (auto simp: parse_line_def valid_ballot_def Let_def length_remdups_distinct list_all_iff
      filter_empty_conv split: if_splits option.splits)

lemma parse_line_blank:
  "parse_line py_int candidates idx line = Inr None \<Longrightarrow> py_strip line = []"
  by (auto simp: parse_line_def Let_def split: if_splits option.splits)

lemma parse_lines_result:
  "parse_lines py_int candidates idx lines ballots = Inr result \<Longrightarrow>
   \<exists>new. result = ballots @ new \<and> list_all (valid_ballot candidates) new \<and>
     (\<forall>line\<in>set lines. py_strip line \<noteq> [] \<longrightarrow>
        (\<exists>count. py_int (py_strip (count_text_of line)) = Some count \<and>
                 (count, ranking_of (ranking_text_of line)) \<in> set new))"
proof (induction lines arbitrary: idx ballots)
  case Nil
  then show ?case by simp
next
  case (Cons line lines)
  show ?case
  proof (cases "parse_line py_int candidates idx line")
    case (Inl e)
    with Cons.prems show ?thesis by simp
  next
    case (Inr r)
    show ?thesis
    proof (cases r)
      case None
      with Inr Cons.prems have "parse_lines py_int candidates (Suc idx) lines ballots = Inr result"
        by simp
      from Cons.IH [OF this] obtain new where new: "result = ballots @ new"
        "list_all (valid_ballot candidates) new"
        "\<forall>line\<in>set lines. py_strip line \<noteq> [] \<longrightarrow>
          (\<exists>count. py_int (py_strip (count_text_of line)) = Some count \<and>
                   (count, ranking_of (ranking_text_of line)) \<in> set new)"
        by blast
      moreover from Inr None have "py_strip line = []"
        by (simp add: parse_line_blank)
      ultimately show ?thesis by auto
    next
      case (Some b)
      with Inr Cons.prems have "parse_lines py_int candidates (Suc idx) lines (ballots @ [b]) = Inr result"
        by simp
      from Cons.IH [OF this] obtain new where new: "result = (ballots @ [b]) @ new"
        "list_all (valid_ballot candidates) new"
        "\<forall>line\<in>set lines. py_strip line \<noteq> [] \<longrightarrow>
          (\<exists>count. py_int (py_strip (count_text_of line)) = Some count \<and>
                   (count, ranking_of (ranking_text_of line)) \<in> set new)"
        by blast
      from Inr Some have b: "valid_ballot candidates b"
        "py_int (py_strip (count_text_of line)) = Some (fst b)"
        "snd b = ranking_of (ranking_text_of line)"
        using parse_line_ballot [of py_int candidates idx line b] by simp_all
      have "result = ballots @ (b # new)"
        using new(1) by simp
      moreover have "list_all (valid_ballot candidates) (b # new)"
        using b(1) new(2) by simp
      moreover have "\<exists>count. py_int (py_strip (count_text_of l)) = Some count \<and>
          (count, ranking_of (ranking_text_of l)) \<in> set (b # new)"
        if "l \<in> set (line # lines)" and "py_strip l \<noteq> []" for l
      proof (cases "l = line")
        case True
        have "(fst b, ranking_of (ranking_text_of line)) = b"
          using b(3) by (cases b) simp
        then show ?thesis
          using True b(2) by auto
      next
        case False
        with that new(3) show ?thesis by auto
      qed
      ultimately show ?thesis by blast
    qed
  qed
qed

lemma parsed_election_valid:
  assumes "parse_candidates raw_candidates = Inr candidates"
    and "parse_ballots py_int raw_ballots candidates = Inr ballots"
  shows "valid_input candidates ballots"
proof -
  from assms(1) have "candidates \<noteq> []" and "distinct candidates"
    by (auto simp: parse_candidates_def Let_def length_remdups_distinct split: if_splits)
  moreover from assms(2)
  have lines: "parse_lines py_int candidates 1 (py_splitlines raw_ballots) [] = Inr ballots"
    and "ballots \<noteq> []"
    by (auto simp: parse_ballots_def split: if_splits sum.splits)
  moreover from parse_lines_result [OF lines] have "list_all (valid_ballot candidates) ballots"
    by auto
  ultimately show ?thesis by (simp add: valid_input_def)
qed

section \<open>Facts about a round\<close>

lemma find_Some_mem: "find P xs = Some x \<Longrightarrow> x \<in> set xs \<and> P x"
  by (induction xs) (auto split: if_splits)

lemma map_of_dict_set: "map_of (dict_set t k v) = (map_of t)(k \<mapsto> v)"
proof (induction t)
  case Nil
  show ?case by simp
next
  case (Cons p t)
  then show ?case by (cases p) (auto simp: fun_eq_iff)
qed

lemma counter_get_add:
  "counter_get (counter_add t k n) x = (if x = k then counter_get t k + n else counter_get t x)"
  by (simp add: counter_get_def counter_add_def map_of_dict_set)

lemma dict_set_total: "counter_total (dict_set t k v) = counter_total t - counter_get t k + v"
proof (induction t)
  case Nil
  show ?case by (simp add: counter_total_def counter_get_def)
next
  case (Cons p t)
  then show ?case by (cases p) (auto simp: counter_total_def counter_get_def)
qed

lemma counter_add_total: "counter_total (counter_add t k n) = counter_total t + n"
  by (simp add: counter_add_def dict_set_total)

definition live :: "cand list \<Rightarrow> ballot \<Rightarrow> bool" where
  "live remaining b \<longleftrightarrow> list_ex (\<lambda>choice. choice \<in> set remaining) (snd b)"

lemma count_ballot_total:
  "counter_total (count_ballot remaining b t) =
     counter_total t + (if live remaining b then fst b else 0)"
  by (auto simp: count_ballot_def live_def counter_add_total list_ex_iff find_None_iff
      split: option.splits dest: find_Some_mem)

lemma fold_count_ballot_total:
  "counter_total (fold (count_ballot remaining) ballots t) =
     counter_total t + sum_list (map fst (filter (live remaining) ballots))"
  by (induction ballots arbitrary: t) (simp_all add: count_ballot_total)

lemma tally_round_total:
  "counter_total (tally_round ballots remaining) = sum_list (map fst (filter (live remaining) ballots))"
  unfolding tally_round_def fold_count_ballot_total by (simp add: counter_total_def)

lemma sum_filter_le:
  "list_all (\<lambda>b. 0 < fst b) ballots \<Longrightarrow>
   sum_list (map fst (filter P ballots)) \<le> sum_list (map fst (ballots :: ballot list))"
  by (induction ballots) auto

lemma valid_ballot_live:
  "valid_ballot candidates b \<Longrightarrow> snd b \<noteq> [] \<Longrightarrow> live candidates b"
  by (cases "snd b") (auto simp: valid_ballot_def live_def)



lemma dict_set_entries: "set (dict_set t k v) \<subseteq> insert (k, v) (set t)"
proof (induction t)
  case Nil
  show ?case by simp
next
  case (Cons p t)
  then show ?case by (cases p) auto
qed







text \<open>
  The division \<open>total / 2\<close>: exact up to \<open>2 ^ 53\<close>, a number below \<open>2 ^ 1024\<close>, an
  exception from \<open>2 ^ 1026\<close> on.
\<close>

lemma shift53_small: "n < 2 ^ 53 \<Longrightarrow> shift53 n = 0"
  by (simp add: shift53.simps)


lemma pow_shift53_le: "0 < n \<Longrightarrow> 2 ^ shift53 n \<le> n"
proof (induction n rule: shift53.induct)
  case (1 n)
  show ?case
  proof (cases "n < 2 ^ 53")
    case True
    with "1.prems" show ?thesis by (simp add: shift53_small)
  next
    case False
    then have "0 < n div 2" by simp
    with False "1.IH" have "2 ^ shift53 (n div 2) \<le> n div 2" by simp
    then have "2 * 2 ^ shift53 (n div 2) \<le> n" by simp
    with False show ?thesis by (simp add: shift53.simps [of n])
  qed
qed

lemma round53_bounds: "round53 n \<le> 2 * n \<and> n \<le> 2 * round53 n"
proof (cases "n = 0")
  case True
  then show ?thesis by (simp add: round53_def shift53_small)
next
  case False
  let ?s = "shift53 n"
  let ?q = "n div 2 ^ ?s"
  let ?r = "n mod 2 ^ ?s"
  from False have "2 ^ ?s \<le> n" by (simp add: pow_shift53_le)
  then have q: "1 \<le> ?q" by (simp add: Suc_le_eq div_greater_zero_iff)
  have n: "n = ?q * 2 ^ ?s + ?r" using div_mult_mod_eq [of n "2 ^ ?s"] by simp
  have r: "?r < 2 ^ ?s" by simp
  have "2 ^ ?s \<le> ?q * 2 ^ ?s" using q by simp
  with n r have low: "n \<le> 2 * (?q * 2 ^ ?s)" by linarith
  have "?q * 2 ^ ?s \<le> n" by simp
  moreover have "(?q + 1) * 2 ^ ?s \<le> 2 * (?q * 2 ^ ?s)"
    using q by (simp add: algebra_simps)
  ultimately have up: "(?q + 1) * 2 ^ ?s \<le> 2 * n" "?q * 2 ^ ?s \<le> 2 * n" by linarith+
  have "?q * 2 ^ ?s \<le> (?q + 1) * 2 ^ ?s" by simp
  with low have low': "n \<le> 2 * ((?q + 1) * 2 ^ ?s)" by linarith
  from up low low' show ?thesis by (simp add: round53_def Let_def)
qed


lemma true_div_2_returns:
  assumes "0 \<le> n" and "n < 2 ^ 1024"
  shows "\<exists>half. true_div_2 n = Inr half"
proof -
  from assms have "nat \<bar>n\<bar> < 2 ^ 1024" by (simp add: nat_less_iff)
  moreover have "round53 (nat \<bar>n\<bar>) \<le> 2 * nat \<bar>n\<bar>" by (simp add: round53_bounds)
  ultimately have "\<not> 2 ^ 1025 \<le> round53 (nat \<bar>n\<bar>)" by simp
  then show ?thesis
    unfolding true_div_2_def Let_def
    by (intro exI [of _ "real_of_int (sgn n * int (round53 (nat \<bar>n\<bar>))) / 2"]) simp
qed

lemma true_div_2_overflow:
  assumes "2 ^ 1026 \<le> n"
  shows "true_div_2 n = Inl Float_overflow"
proof -
  from assms have "2 ^ 1026 \<le> nat \<bar>n\<bar>" by (simp add: le_nat_iff)
  moreover have "nat \<bar>n\<bar> \<le> 2 * round53 (nat \<bar>n\<bar>)" by (simp add: round53_bounds)
  ultimately have "2 ^ 1025 \<le> round53 (nat \<bar>n\<bar>)" by simp
  then show ?thesis by (simp add: true_div_2_def)
qed



lemma majority_returns:
  assumes "0 \<le> tot" and "tot < 2 ^ 1024"
  shows "\<exists>m. majority tally tot = Inr m"
proof (induction tally)
  case Nil
  show ?case by simp
next
  case (Cons p tally)
  from true_div_2_returns [OF assms] obtain half where "true_div_2 tot = Inr half" ..
  with Cons show ?case by (cases p) simp
qed

lemma majority_overflow:
  "tally \<noteq> [] \<Longrightarrow> 2 ^ 1026 \<le> tot \<Longrightarrow> majority tally tot = Inl Float_overflow"
  by (cases tally) (auto simp: true_div_2_overflow)


text \<open>
  A candidate returned by the majority loop has a tally above the binary64 quotient.
\<close>

lemma majority_strict:
  "majority tally tot = Inr (Some c) \<Longrightarrow>
   \<exists>votes half. (c, votes) \<in> set tally \<and> true_div_2 tot = Inr half \<and> half < real_of_int votes"
  by (induction tally) (auto split: sum.splits if_splits)

lemma tally_total_bounds:
  assumes "list_all (\<lambda>b. 0 < fst b) ballots"
  shows "0 \<le> counter_total (tally_round ballots remaining)"
    and "counter_total (tally_round ballots remaining) \<le> sum_list (map fst ballots)"
proof -
  have "0 \<le> sum_list (map fst (filter (live remaining) ballots))"
    using assms by (intro sum_list_nonneg) (auto simp: list_all_iff)
  then show "0 \<le> counter_total (tally_round ballots remaining)"
    by (simp add: tally_round_total)
  show "counter_total (tally_round ballots remaining) \<le> sum_list (map fst ballots)"
    unfolding tally_round_total using assms by (rule sum_filter_le)
qed

text \<open>
  The removals of a round, for a list of remaining candidates without repetition: the
  candidates whose count differs from the lowest recorded count stay, in their order.
\<close>

lemma fold_remove1_filter:
  "distinct xs \<Longrightarrow> fold remove1 ys xs = filter (\<lambda>x. x \<notin> set ys) xs"
proof (induction ys arbitrary: xs)
  case Nil
  show ?case by simp
next
  case (Cons y ys)
  have r: "remove1 y xs = filter (\<lambda>x. x \<noteq> y) xs"
    using Cons.prems
    by (simp add: distinct_remove1_removeAll removeAll_filter_not_eq) (auto intro: filter_cong)
  have "fold remove1 (y # ys) xs = fold remove1 ys (filter (\<lambda>x. x \<noteq> y) xs)"
    by (simp add: r)
  also have "\<dots> = filter (\<lambda>x. x \<notin> set ys) (filter (\<lambda>x. x \<noteq> y) xs)"
    using Cons.prems by (intro Cons.IH) simp
  also have "\<dots> = filter (\<lambda>x. x \<notin> set (y # ys)) xs"
    by (auto intro: filter_cong)
  finally show ?case .
qed

lemma survivors_filter:
  "distinct remaining \<Longrightarrow>
   survivors tally remaining =
     filter (\<lambda>c. counter_get tally c \<noteq> lowest_votes tally) remaining"
  by (auto simp: survivors_def eliminated_def fold_remove1_filter intro: filter_cong)

section \<open>The instant-runoff loop\<close>

text \<open>The five ways through one iteration of the loop.\<close>

lemma irv_loop_exit:
  "\<not> 1 < length remaining \<Longrightarrow>
   irv_loop ballots remaining rounds = Inr (final_winner remaining, rounds)"
  by (simp add: irv_loop.simps [of ballots remaining rounds] Let_def)

lemma irv_loop_break:
  "1 < length remaining \<Longrightarrow> counter_total (tally_round ballots remaining) = 0 \<Longrightarrow>
   irv_loop ballots remaining rounds =
     Inr (final_winner remaining, rounds @ [(tally_round ballots remaining, 0, remaining)])"
  by (simp add: irv_loop.simps [of ballots remaining rounds] Let_def)

lemma irv_loop_raise:
  "1 < length remaining \<Longrightarrow> counter_total (tally_round ballots remaining) \<noteq> 0 \<Longrightarrow>
   majority (tally_round ballots remaining) (counter_total (tally_round ballots remaining)) = Inl e \<Longrightarrow>
   irv_loop ballots remaining rounds = Inl e"
  by (simp add: irv_loop.simps [of ballots remaining rounds] Let_def)

lemma irv_loop_return:
  "1 < length remaining \<Longrightarrow> counter_total (tally_round ballots remaining) \<noteq> 0 \<Longrightarrow>
   majority (tally_round ballots remaining) (counter_total (tally_round ballots remaining)) =
     Inr (Some c) \<Longrightarrow>
   irv_loop ballots remaining rounds =
     Inr (c, rounds @
       [(tally_round ballots remaining, counter_total (tally_round ballots remaining), remaining)])"
  by (simp add: irv_loop.simps [of ballots remaining rounds] Let_def)

lemma irv_loop_continue:
  "1 < length remaining \<Longrightarrow> counter_total (tally_round ballots remaining) \<noteq> 0 \<Longrightarrow>
   majority (tally_round ballots remaining) (counter_total (tally_round ballots remaining)) =
     Inr None \<Longrightarrow>
   irv_loop ballots remaining rounds =
     irv_loop ballots (survivors (tally_round ballots remaining) remaining)
       (rounds @
         [(tally_round ballots remaining, counter_total (tally_round ballots remaining), remaining)])"
  by (simp add: irv_loop.simps [of ballots remaining rounds] Let_def)

lemma irv_round_cases:
  obtains (exit) "\<not> 1 < length remaining"
  | (break) "1 < length remaining" "counter_total (tally_round ballots remaining) = 0"
  | (raise) e where "1 < length remaining" "counter_total (tally_round ballots remaining) \<noteq> 0"
      "majority (tally_round ballots remaining) (counter_total (tally_round ballots remaining)) = Inl e"
  | (return) c where "1 < length remaining" "counter_total (tally_round ballots remaining) \<noteq> 0"
      "majority (tally_round ballots remaining) (counter_total (tally_round ballots remaining)) =
         Inr (Some c)"
  | (continue) "1 < length remaining" "counter_total (tally_round ballots remaining) \<noteq> 0"
      "majority (tally_round ballots remaining) (counter_total (tally_round ballots remaining)) =
         Inr None"
proof (cases "1 < length remaining")
  case False
  then show ?thesis by (rule exit)
next
  case long: True
  show ?thesis
  proof (cases "counter_total (tally_round ballots remaining) = 0")
    case True
    with long show ?thesis by (rule break)
  next
    case nz: False
    show ?thesis
    proof (cases "majority (tally_round ballots remaining)
        (counter_total (tally_round ballots remaining))")
      case (Inl e)
      with long nz show ?thesis by (rule raise)
    next
      case (Inr m)
      with long nz show ?thesis by (cases m) (auto intro: return continue)
    qed
  qed
qed



text \<open>
  With ballots of positive count whose counts add up to less than \<open>2 ^ 1024\<close>, the loop
  returns.
\<close>

lemma irv_loop_returns:
  assumes "list_all (\<lambda>b. 0 < fst b) ballots" and "sum_list (map fst ballots) < 2 ^ 1024"
  shows "\<exists>result. irv_loop ballots remaining rounds = Inr result"
  using assms
proof (induction ballots remaining rounds rule: irv_loop.induct)
  case (1 ballots remaining rounds)
  show ?case
  proof (cases rule: irv_round_cases [where remaining = remaining and ballots = ballots])
    case exit
    then show ?thesis by (simp add: irv_loop_exit)
  next
    case break
    then show ?thesis by (simp add: irv_loop_break)
  next
    case (raise e)
    have "0 \<le> counter_total (tally_round ballots remaining)"
      and "counter_total (tally_round ballots remaining) < 2 ^ 1024"
      using tally_total_bounds [OF "1.prems"(1), of remaining] "1.prems"(2) by simp_all
    from majority_returns [OF this, of "tally_round ballots remaining"] raise(3)
    show ?thesis by auto
  next
    case (return c)
    then show ?thesis by (simp add: irv_loop_return)
  next
    case continue
    then show ?thesis
      using "1.IH" [OF continue(1) refl refl refl continue(2) continue(3) refl "1.prems"]
      by (simp add: irv_loop_continue)
  qed
qed


lemma irv_loop_trail_prefix:
  "irv_loop ballots remaining rounds = Inr (winner, trail) \<Longrightarrow> \<exists>rest. trail = rounds @ rest"
proof (induction ballots remaining rounds rule: irv_loop.induct)
  case (1 ballots remaining rounds)
  show ?case
  proof (cases rule: irv_round_cases [where remaining = remaining and ballots = ballots])
    case exit
    with "1.prems" show ?thesis by (auto simp: irv_loop_exit)
  next
    case break
    with "1.prems" show ?thesis by (auto simp: irv_loop_break)
  next
    case (raise e)
    with "1.prems" show ?thesis by (simp add: irv_loop_raise)
  next
    case (return c)
    with "1.prems" show ?thesis by (auto simp: irv_loop_return)
  next
    case continue
    from "1.prems" continue
    have "\<exists>rest. trail =
        (rounds @ [(tally_round ballots remaining,
          counter_total (tally_round ballots remaining), remaining)]) @ rest"
      by (intro "1.IH" [OF continue(1) refl refl refl continue(2) continue(3) refl])
        (simp add: irv_loop_continue)
    then show ?thesis by auto
  qed
qed

lemma irv_loop_first_round:
  assumes "1 < length remaining" and "irv_loop ballots remaining rounds = Inr (winner, trail)"
  shows "\<exists>rest. trail =
           rounds @ (tally_round ballots remaining,
                     counter_total (tally_round ballots remaining), remaining) # rest"
proof (cases rule: irv_round_cases [where remaining = remaining and ballots = ballots])
  case exit
  with assms(1) show ?thesis by simp
next
  case break
  with assms(2) show ?thesis by (auto simp: irv_loop_break)
next
  case (raise e)
  with assms(2) show ?thesis by (simp add: irv_loop_raise)
next
  case (return c)
  with assms(2) show ?thesis by (auto simp: irv_loop_return)
next
  case continue
  with assms(2) have "irv_loop ballots (survivors (tally_round ballots remaining) remaining)
      (rounds @ [(tally_round ballots remaining,
        counter_total (tally_round ballots remaining), remaining)]) = Inr (winner, trail)"
    by (simp add: irv_loop_continue)
  from irv_loop_trail_prefix [OF this] show ?thesis by auto
qed



text \<open>
  The exception is real: a count of \<open>10 ^ 400\<close> passes \<open>parse_ballots\<close>, and the division
  of round 1 raises.
\<close>

lemma irv_overflow_example:
  "valid_input [py ''A'', py ''B''] [(10 ^ 400, [py ''A'']), (1, [py ''B''])] \<and>
   irv_winner [py ''A'', py ''B''] [(10 ^ 400, [py ''A'']), (1, [py ''B''])] = Inl Float_overflow"
proof -
  let ?cs = "[py ''A'', py ''B'']"
  let ?bs = "[(10 ^ 400, [py ''A'']), (1, [py ''B''])]"
  have tally: "tally_round ?bs ?cs = [(py ''A'', 10 ^ 400), (py ''B'', 1)]"
    by (simp add: tally_round_def count_ballot_def counter_add_def counter_get_def py_def)
  have tot: "counter_total (tally_round ?bs ?cs) = 10 ^ 400 + 1"
    unfolding tally by (simp add: counter_total_def)
  have long: "1 < length ?cs"
    by simp
  have maj: "majority (tally_round ?bs ?cs) (counter_total (tally_round ?bs ?cs)) =
      Inl Float_overflow"
    unfolding tot unfolding tally by (rule majority_overflow) simp_all
  have nz: "counter_total (tally_round ?bs ?cs) \<noteq> 0"
    unfolding tot by simp
  have "irv_loop ?bs ?cs [] = Inl Float_overflow"
    by (rule irv_loop_raise [OF long nz maj])
  then show ?thesis
    by (simp add: irv_winner_def valid_input_def valid_ballot_def py_def)
qed

section \<open>Facts about the Borda scores\<close>

lemma all_zero_counter:
  assumes "\<forall>r\<in>set scores. snd r = 0"
  shows "counter_total scores = 0 \<and> counter_get scores c = 0"
proof
  show "counter_total scores = 0"
    using assms unfolding counter_total_def by (induction scores) auto
  show "counter_get scores c = 0"
    using assms by (auto simp: counter_get_def split: option.splits dest!: map_of_SomeD)
qed

lemma fold_dict_set_zero:
  "\<forall>r\<in>set scores. snd r = 0 \<Longrightarrow>
   \<forall>r\<in>set (fold (\<lambda>c scores. dict_set scores c 0) candidates scores). snd r = 0"
proof (induction candidates arbitrary: scores)
  case Nil
  then show ?case by simp
next
  case (Cons c candidates)
  have "\<forall>r\<in>set (dict_set scores c 0). snd r = 0"
    using Cons.prems dict_set_entries [of scores c 0] by auto
  then show ?case
    using Cons.IH by simp
qed

lemma initial_scores_total: "counter_total (initial_scores candidates) = 0"
proof -
  have "\<forall>r\<in>set (initial_scores candidates). snd r = 0"
    unfolding initial_scores_def by (rule fold_dict_set_zero) simp
  then show ?thesis
    by (simp add: all_zero_counter)
qed

lemma fold_score_total:
  "counter_total
     (fold (\<lambda>(idx, candidate) scores. counter_add scores candidate (w * (max_points - int idx)))
        (enumerate n ranking) scores) =
   counter_total scores + (\<Sum>i \<leftarrow> [n..<n + length ranking]. w * (max_points - int i))"
proof (induction ranking arbitrary: n scores)
  case Nil
  show ?case by simp
next
  case (Cons c ranking)
  have "[n..<n + length (c # ranking)] = n # [Suc n..<Suc n + length ranking]"
    by (simp add: upt_rec)
  then show ?case
    by (simp add: Cons.IH counter_add_total)
qed

lemma score_ballot_total:
  "counter_total (score_ballot max_points (w, ranking) scores) =
   counter_total scores + (\<Sum>i \<leftarrow> [0..<length ranking]. w * (max_points - int i))"
  using fold_score_total [of w max_points 0 ranking scores] by (simp add: score_ballot_def)

lemma descending_points_sum:
  "2 * (\<Sum>i \<leftarrow> [0..<m]. w * (c - int i)) = w * (2 * c * int m - int m * (int m - 1))"
  by (induction m) (simp_all add: algebra_simps)

section \<open>Facts about the victory counts\<close>

definition beats :: "pairwise \<Rightarrow> cand \<Rightarrow> cand \<Rightarrow> bool" where
  "beats pw a b \<longleftrightarrow> b \<noteq> a \<and> pw a b > pw b a"

lemma fold_count_victory:
  "counter_get (fold (count_victory pw a) bs victories) x =
     counter_get victories x + (if x = a then int (length (filter (beats pw a) bs)) else 0)"
  by (induction bs arbitrary: victories)
    (auto simp: count_victory_def counter_get_add beats_def)

lemma fold_fold_count_victory:
  "distinct as \<Longrightarrow>
   counter_get (fold (\<lambda>a victories. fold (count_victory pw a) candidates victories) as victories) x =
     counter_get victories x +
     (if x \<in> set as then int (length (filter (beats pw x) candidates)) else 0)"
  by (induction as arbitrary: victories) (auto simp: fold_count_victory)

lemma count_victories_get:
  assumes "distinct candidates" and "a \<in> set candidates"
  shows "counter_get (count_victories pw candidates) a =
           int (card {b \<in> set candidates. beats pw a b})"
proof -
  have "length (filter (beats pw a) candidates) = card {b \<in> set candidates. beats pw a b}"
    using assms(1) by (simp add: distinct_length_filter Int_def conj_commute)
  moreover have "counter_get [] a = 0"
    by (simp add: counter_get_def)
  ultimately show ?thesis
    using assms by (simp add: count_victories_def fold_fold_count_victory)
qed

section \<open>The claims\<close>

text \<open>
  C1, at an election the code accepts: four candidates, one ballot for A and one for B.
  Round 1 counts 2 votes and eliminates A and B; round 2 counts a total of 0, the loop
  stops there and the round is the last of the trail. The value returned with that
  trail is C, the first remaining candidate, and not the \<open>No winner\<close> string. The same
  with two candidates and the one ballot of the line \<open>5:\<close>, whose ranking is empty: round
  1 counts a total of 0 and A is returned.
\<close>

theorem irv_zero_total_picks_first_remaining:
  "valid_input [py ''A'', py ''B'', py ''C'', py ''D''] [(1, [py ''A'']), (1, [py ''B''])] \<and>
   irv_winner [py ''A'', py ''B'', py ''C'', py ''D''] [(1, [py ''A'']), (1, [py ''B''])] =
     Inr (py ''C'',
      [([(py ''A'', 1), (py ''B'', 1)], 2, [py ''A'', py ''B'', py ''C'', py ''D'']),
       ([], 0, [py ''C'', py ''D''])]) \<and>
   py ''C'' \<noteq> no_winner \<and>
   irv_winner [py ''A'', py ''B''] [(5, [])] = Inr (py ''A'', [([], 0, [py ''A'', py ''B''])]) \<and>
   py ''A'' \<noteq> no_winner"
  by (simp add: irv_eval valid_input_def valid_ballot_def)

text \<open>
  C2, at an election the code accepts: three candidates, two ballots for A and two for B.
  C has no entry in the tally and reads as 0 through \<open>tally.get(c, 0)\<close>, yet the lowest
  count is taken over the recorded entries only and is 2: A and B are eliminated, C
  stays and is returned.
\<close>

theorem irv_lowest_skips_unvoted:
  "valid_input [py ''A'', py ''B'', py ''C''] [(2, [py ''A'']), (2, [py ''B''])] \<and>
   tally_round [(2, [py ''A'']), (2, [py ''B''])] [py ''A'', py ''B'', py ''C''] =
     [(py ''A'', 2), (py ''B'', 2)] \<and>
   counter_get [(py ''A'', 2), (py ''B'', 2)] (py ''C'') = 0 \<and>
   lowest_votes [(py ''A'', 2), (py ''B'', 2)] = 2 \<and>
   eliminated [(py ''A'', 2), (py ''B'', 2)] [py ''A'', py ''B'', py ''C''] = [py ''A'', py ''B''] \<and>
   irv_winner [py ''A'', py ''B'', py ''C''] [(2, [py ''A'']), (2, [py ''B''])] =
     Inr (py ''C'', [([(py ''A'', 2), (py ''B'', 2)], 4, [py ''A'', py ''B'', py ''C''])])"
  by (simp add: irv_eval valid_input_def valid_ballot_def)

text \<open>
  C3 as stated fails: the line \<open>5:\<close> has no token to the right of the colon, and
  \<open>parse_ballots\<close> returns the ballot of count 5 with the empty ranking.
\<close>

theorem parse_ballots_empty_ranking_counterexample:
  "ranking_of (ranking_text_of (py ''5:'')) = [] \<and>
   parse_ballots decimal_int (py ''5:'') [py ''A''] = Inr [(5, [])]"
  by (simp add: parse_eval)

text \<open>
  C3 as amended: a list of ballots that \<open>parse_ballots\<close> returns is not empty, and each of
  its ballots has a positive count and a ranking without repetition whose names are
  candidates; the ranking may be empty. A line that is not blank and has no token to the
  right of the colon is not rejected: the result has a ballot with the count of that
  line and the empty ranking.
\<close>

theorem parse_ballots_keeps_empty_rankings:
  assumes "parse_ballots py_int raw candidates = Inr ballots"
  shows "ballots \<noteq> [] \<and> list_all (valid_ballot candidates) ballots \<and>
         (\<forall>line\<in>set (py_splitlines raw).
            py_strip line \<noteq> [] \<and> ranking_of (ranking_text_of line) = [] \<longrightarrow>
            (\<exists>count. py_int (py_strip (count_text_of line)) = Some count \<and>
                     (count, []) \<in> set ballots))"
proof -
  from assms have lines: "parse_lines py_int candidates 1 (py_splitlines raw) [] = Inr ballots"
    and ne: "ballots \<noteq> []"
    by (auto simp: parse_ballots_def split: if_splits sum.splits)
  from parse_lines_result [OF lines] have valid: "list_all (valid_ballot candidates) ballots"
    and each: "\<forall>line\<in>set (py_splitlines raw). py_strip line \<noteq> [] \<longrightarrow>
        (\<exists>count. py_int (py_strip (count_text_of line)) = Some count \<and>
                 (count, ranking_of (ranking_text_of line)) \<in> set ballots)"
    by auto
  from each have "\<forall>line\<in>set (py_splitlines raw).
      py_strip line \<noteq> [] \<and> ranking_of (ranking_text_of line) = [] \<longrightarrow>
      (\<exists>count. py_int (py_strip (count_text_of line)) = Some count \<and> (count, []) \<in> set ballots)"
    by fastforce
  with ne valid show ?thesis by simp
qed

theorem parse_ballots_keeps_empty_rankings_witness:
  "parse_ballots decimal_int (py ''3: A'' @ [10] @ py ''2: > ,'') [py ''A''] =
     Inr [(3, [py ''A'']), (2, [])] \<and>
   py ''2: > ,'' \<in> set (py_splitlines (py ''3: A'' @ [10] @ py ''2: > ,'')) \<and>
   py_strip (py ''2: > ,'') \<noteq> [] \<and> ranking_of (ranking_text_of (py ''2: > ,'')) = [] \<and>
   decimal_int (py_strip (count_text_of (py ''2: > ,''))) = Some 2 \<and>
   (2, []) \<in> set [(3, [py ''A'']), (2, [])] \<and>
   list_all (valid_ballot [py ''A'']) [(3, [py ''A'']), (2, [])]"
proof -
  have h: "parse_ballots decimal_int (py ''3: A'' @ [10] @ py ''2: > ,'') [py ''A''] =
      Inr [(3, [py ''A'']), (2, [])]"
    by (simp add: parse_eval)
  have line: "py ''2: > ,'' \<in> set (py_splitlines (py ''3: A'' @ [10] @ py ''2: > ,''))"
    by (simp add: parse_eval)
  have empty: "py_strip (py ''2: > ,'') \<noteq> [] \<and> ranking_of (ranking_text_of (py ''2: > ,'')) = [] \<and>
      decimal_int (py_strip (count_text_of (py ''2: > ,''))) = Some 2"
    by (simp add: parse_eval)
  show ?thesis
    using parse_ballots_keeps_empty_rankings [OF h] h line empty by auto
qed




text \<open>
  C5: for a candidate list without repetition, the victory count of a candidate \<open>a\<close> is
  the number of other candidates \<open>b\<close> with \<open>pairwise[a][b] > pairwise[b][a]\<close>, and the
  winner is the first candidate, in the order of the candidate list, whose count is
  \<open>candidateCount - 1\<close>; when no candidate has that count, the winner is \<open>None\<close>.
\<close>

theorem condorcet_winner_beats_all:
  assumes "distinct candidates"
    and "condorcet_winner candidates ballots = (winner, pw, victories)"
  shows "pw = pairwise_matrix ballots \<and>
         (\<forall>a\<in>set candidates.
            counter_get victories a =
              int (card {b \<in> set candidates. b \<noteq> a \<and> pw a b > pw b a})) \<and>
         (case winner of
            None \<Rightarrow>
              \<forall>c\<in>set candidates. counter_get victories c \<noteq> int (length candidates) - 1
          | Some c \<Rightarrow>
              \<exists>i<length candidates. candidates ! i = c \<and>
                counter_get victories c = int (length candidates) - 1 \<and>
                (\<forall>j<i. counter_get victories (candidates ! j) \<noteq> int (length candidates) - 1))"
proof -
  from assms(2) have pw: "pw = pairwise_matrix ballots"
    and vic: "victories = count_victories pw candidates"
    and win: "winner = find (\<lambda>candidate. counter_get victories candidate = int (length candidates) - 1)
        candidates"
    by (auto simp: condorcet_winner_def Let_def)
  have "counter_get victories a = int (card {b \<in> set candidates. b \<noteq> a \<and> pw a b > pw b a})"
    if "a \<in> set candidates" for a
    using count_victories_get [OF assms(1) that, of pw] vic by (simp add: beats_def)
  moreover have "case winner of
            None \<Rightarrow>
              \<forall>c\<in>set candidates. counter_get victories c \<noteq> int (length candidates) - 1
          | Some c \<Rightarrow>
              \<exists>i<length candidates. candidates ! i = c \<and>
                counter_get victories c = int (length candidates) - 1 \<and>
                (\<forall>j<i. counter_get victories (candidates ! j) \<noteq> int (length candidates) - 1)"
  proof (cases winner)
    case None
    with win show ?thesis by (auto simp: find_None_iff2)
  next
    case (Some c)
    with win have "find (\<lambda>candidate. counter_get victories candidate = int (length candidates) - 1)
        candidates = Some c" by simp
    then show ?thesis
      unfolding Some find_Some_iff by auto
  qed
  ultimately show ?thesis
    using pw by blast
qed

theorem condorcet_winner_beats_all_witness:
  "distinct [py ''A'', py ''B'', py ''C''] \<and>
   fst (condorcet_winner [py ''A'', py ''B'', py ''C'']
          [(2, [py ''A'', py ''B'', py ''C'']), (1, [py ''B'', py ''A'', py ''C''])]) = Some (py ''A'') \<and>
   card {b \<in> set [py ''A'', py ''B'', py ''C'']. b \<noteq> py ''A'' \<and>
           pairwise_matrix [(2, [py ''A'', py ''B'', py ''C'']), (1, [py ''B'', py ''A'', py ''C''])] (py ''A'') b >
           pairwise_matrix [(2, [py ''A'', py ''B'', py ''C'']), (1, [py ''B'', py ''A'', py ''C''])] b (py ''A'')} = 2"
proof -
  let ?cs = "[py ''A'', py ''B'', py ''C'']"
  let ?bs = "[(2, [py ''A'', py ''B'', py ''C'']), (1, [py ''B'', py ''A'', py ''C''])]"
  have h1: "distinct ?cs"
    by (simp add: py_def)
  have h2: "condorcet_winner ?cs ?bs =
      (Some (py ''A''), pairwise_matrix ?bs, [(py ''A'', 2), (py ''B'', 1)])"
    by (simp add: condorcet_winner_def pairwise_matrix_def pairwise_add_def count_victories_def
        count_victory_def counter_add_def counter_get_def py_def Let_def)
  have "counter_get [(py ''A'', 2), (py ''B'', 1)] (py ''A'') = 2"
    by (simp add: counter_get_def)
  then show ?thesis
    using condorcet_winner_beats_all [OF h1 h2] h1 h2 by simp
qed



text \<open>
  C7: for a valid election with at least two candidates, the total that round 1 counts
  and records, taken over the full candidate list, is at most the sum of the ballots'
  counts, and is that sum when no ranking is empty. A trail that \<open>irv_winner\<close> returns
  starts with that round, and \<open>irv_winner\<close> returns when the counts add up to less than
  \<open>2 ^ 1024\<close>.
\<close>

theorem irv_round1_total:
  assumes "valid_input candidates ballots" and "2 \<le> length candidates"
  shows "counter_total (tally_round ballots candidates) \<le> sum_list (map fst ballots) \<and>
         (list_all (\<lambda>b. snd b \<noteq> []) ballots \<longrightarrow>
            counter_total (tally_round ballots candidates) = sum_list (map fst ballots)) \<and>
         (\<forall>winner rounds. irv_winner candidates ballots = Inr (winner, rounds) \<longrightarrow>
            (\<exists>rest. rounds =
               (tally_round ballots candidates,
                counter_total (tally_round ballots candidates), candidates) # rest)) \<and>
         (sum_list (map fst ballots) < 2 ^ 1024 \<longrightarrow>
            (\<exists>winner rounds. irv_winner candidates ballots = Inr (winner, rounds)))"
proof -
  let ?tally = "tally_round ballots candidates"
  from assms(2) have long: "1 < length candidates" by simp
  from assms(1) have valid: "list_all (valid_ballot candidates) ballots"
    by (simp add: valid_input_def)
  then have pos: "list_all (\<lambda>b. 0 < fst b) ballots"
    by (simp add: list_all_iff valid_ballot_def)
  then have le: "counter_total ?tally \<le> sum_list (map fst ballots)"
    by (rule tally_total_bounds)
  have eq: "counter_total ?tally = sum_list (map fst ballots)"
    if "list_all (\<lambda>b. snd b \<noteq> []) ballots"
  proof -
    from that valid have "filter (live candidates) ballots = ballots"
      by (auto simp: list_all_iff valid_ballot_live)
    then show ?thesis by (simp add: tally_round_total)
  qed
  have first: "\<exists>rest. rounds = (?tally, counter_total ?tally, candidates) # rest"
    if "irv_winner candidates ballots = Inr (winner, rounds)" for winner rounds
    using irv_loop_first_round [OF long, of ballots "[]" winner rounds] that
    by (simp add: irv_winner_def)
  have returns: "\<exists>winner rounds. irv_winner candidates ballots = Inr (winner, rounds)"
    if "sum_list (map fst ballots) < 2 ^ 1024"
    using irv_loop_returns [OF pos that, of candidates "[]"] by (auto simp: irv_winner_def)
  from le eq first returns show ?thesis by blast
qed

theorem irv_round1_total_witness:
  "valid_input default_candidates default_ballots \<and> 2 \<le> length default_candidates \<and>
   list_all (\<lambda>b. snd b \<noteq> []) default_ballots \<and> sum_list (map fst default_ballots) = 28 \<and>
   counter_total (tally_round default_ballots default_candidates) = 28 \<and>
   (\<exists>winner rest. irv_winner default_candidates default_ballots =
      Inr (winner, (tally_round default_ballots default_candidates, 28, default_candidates) # rest))"
proof -
  have h2: "2 \<le> length default_candidates"
    by (simp add: default_candidates_def)
  have full: "list_all (\<lambda>b. snd b \<noteq> []) default_ballots"
    by (simp add: default_ballots_def)
  have total: "sum_list (map fst default_ballots) = 28"
    by (simp add: default_ballots_def)
  have small: "sum_list (map fst default_ballots) < 2 ^ 1024"
    by (simp add: total)
  from irv_round1_total [OF default_election_valid h2] full total small
  have "counter_total (tally_round default_ballots default_candidates) = 28"
    and "\<exists>winner rest. irv_winner default_candidates default_ballots =
      Inr (winner, (tally_round default_ballots default_candidates,
        counter_total (tally_round default_ballots default_candidates), default_candidates) # rest)"
    by auto
  then show ?thesis
    using default_election_valid h2 full total by simp
qed

text \<open>
  C8: when \<open>parse_candidates\<close> succeeds, the list it returns is the list of the trimmed,
  non-empty tokens of the input in the order of the input, no name occurs twice in it,
  and \<open>parse_candidates\<close> on these names joined by commas returns the same list.
\<close>

theorem parse_candidates_round_trip:
  assumes "parse_candidates raw = Inr candidates"
  shows "candidates = filter (\<lambda>c. c \<noteq> []) (map py_strip (py_split comma raw)) \<and>
         distinct candidates \<and>
         parse_candidates (py_join [comma] candidates) = Inr candidates"
proof -
  let ?tokens = "map py_strip (filter (\<lambda>c. py_strip c \<noteq> []) (py_split comma raw))"
  from assms have cands: "candidates = ?tokens"
    and dist: "distinct candidates" and nonempty: "candidates \<noteq> []"
    by (auto simp: parse_candidates_def Let_def length_remdups_distinct split: if_splits)
  have order: "candidates = filter (\<lambda>c. c \<noteq> []) (map py_strip (py_split comma raw))"
    unfolding cands by (simp add: filter_map comp_def)
  have stripped: "py_strip c = c \<and> c \<noteq> [] \<and> comma \<notin> set c" if "c \<in> set candidates" for c
  proof -
    from that obtain t where t: "t \<in> set (py_split comma raw)" and c: "c = py_strip t"
      and ne: "py_strip t \<noteq> []"
      unfolding cands by auto
    from t have "comma \<notin> set t" by (rule py_split_tokens_no_sep)
    with set_py_strip [of t] have "comma \<notin> set c" unfolding c by auto
    with ne show ?thesis by (simp add: c py_strip_idem)
  qed
  then have "py_split comma (py_join [comma] candidates) = candidates"
    using nonempty by (intro py_split_join) auto
  moreover have "filter (\<lambda>c. py_strip c \<noteq> []) candidates = candidates"
    using stripped by (auto simp: filter_id_conv)
  moreover have "map py_strip candidates = candidates"
    using stripped by (simp add: map_idI)
  ultimately have "parse_candidates (py_join [comma] candidates) = Inr candidates"
    using dist nonempty by (simp add: parse_candidates_def length_remdups_distinct)
  with order dist show ?thesis by simp
qed

theorem parse_candidates_round_trip_witness:
  "parse_candidates (py ''Alice, Bob, Chen, Diego'') = Inr default_candidates \<and>
   py_join [comma] default_candidates = py ''Alice,Bob,Chen,Diego'' \<and>
   parse_candidates (py ''Alice,Bob,Chen,Diego'') = Inr default_candidates"
proof -
  have h: "parse_candidates (py ''Alice, Bob, Chen, Diego'') = Inr default_candidates"
    by (simp add: parse_candidates_def default_candidates_def py_strip_def isspace_def comma_def
        py_def Let_def)
  have joined: "py_join [comma] default_candidates = py ''Alice,Bob,Chen,Diego''"
    by (simp add: default_candidates_def comma_def py_def)
  show ?thesis
    using parse_candidates_round_trip [OF h] h joined by simp
qed

text \<open>
  C9: for a single ballot of count \<open>w\<close> whose ranking has as many entries as there are
  candidates (a full ranking of the candidate set), the scores that \<open>borda_winner\<close> returns
  add up to \<open>w * maxPoints * (maxPoints + 1) / 2\<close> with \<open>maxPoints = candidateCount - 1\<close>;
  the division by 2 is exact.
\<close>

theorem borda_single_full_ballot:
  assumes "length ranking = length candidates"
  shows "counter_total (borda_winner candidates [(w, ranking)]) =
           w * (int (length candidates) - 1) * ((int (length candidates) - 1) + 1) div 2 \<and>
         2 * counter_total (borda_winner candidates [(w, ranking)]) =
           w * (int (length candidates) - 1) * ((int (length candidates) - 1) + 1)"
proof -
  let ?mp = "int (length candidates) - 1"
  have "counter_total (borda_winner candidates [(w, ranking)]) =
      (\<Sum>i \<leftarrow> [0..<length candidates]. w * (?mp - int i))"
    by (simp add: borda_winner_def score_ballot_total initial_scores_total assms)
  moreover have "2 * (\<Sum>i \<leftarrow> [0..<length candidates]. w * (?mp - int i)) = w * ?mp * (?mp + 1)"
    unfolding descending_points_sum by (simp add: algebra_simps)
  ultimately show ?thesis by simp
qed

theorem borda_single_full_ballot_witness:
  "length [py ''Bob'', py ''Diego'', py ''Chen'', py ''Alice''] = length default_candidates \<and>
   counter_total
     (borda_winner default_candidates [(8, [py ''Bob'', py ''Diego'', py ''Chen'', py ''Alice''])]) = 48"
  using borda_single_full_ballot
    [of "[py ''Bob'', py ''Diego'', py ''Chen'', py ''Alice'']" default_candidates 8]
  by (simp add: default_candidates_def)

text \<open>
  C10: an election with two candidates and two ballots of full rankings, A before B and
  B before A. Round 1 counts a total of 2, both candidates are at the lowest count and
  both are removed, and the result is the \<open>No winner\<close> string, which is no candidate.
\<close>

theorem irv_all_tied_no_winner:
  "valid_input [py ''A'', py ''B''] [(1, [py ''A'', py ''B'']), (1, [py ''B'', py ''A''])] \<and>
   2 \<le> length [py ''A'', py ''B''] \<and>
   counter_total (tally_round [(1, [py ''A'', py ''B'']), (1, [py ''B'', py ''A''])] [py ''A'', py ''B'']) = 2 \<and>
   survivors (tally_round [(1, [py ''A'', py ''B'']), (1, [py ''B'', py ''A''])] [py ''A'', py ''B''])
     [py ''A'', py ''B''] = [] \<and>
   irv_winner [py ''A'', py ''B''] [(1, [py ''A'', py ''B'']), (1, [py ''B'', py ''A''])] =
     Inr (no_winner, [([(py ''A'', 1), (py ''B'', 1)], 2, [py ''A'', py ''B''])]) \<and>
   no_winner \<notin> set [py ''A'', py ''B'']"
  by (simp add: irv_eval valid_input_def valid_ballot_def)

end
